theory Spec2Isabelle
  imports Main "HOL-Library.AList"
begin

section \<open>Values, exceptions and causes\<close>

text \<open>
  Python values as far as the two modules look into them: \<open>None\<close>, strings, booleans,
  integers, lists, string-keyed dictionaries (association lists, in insertion order) and
  opaque objects known by their identity only (loggers, patches, memos, diffs).
\<close>

datatype val =
    VNone
  | VBool bool
  | VInt int
  | VStr string
  | VList "val list"
  | VDict "(string \<times> val) list"
  | VObj nat

text \<open>
  Exceptions. A cancellation and an error raised by user code carry an identity, so that
  "the same exception object" can be told from "another exception of the same class".
\<close>

datatype exn =
    AttributeError
  | TypeError
  | ValueError
  | KeyError
  | LookupError
  | RecursionError
  | CancelledError nat
  | Raised nat

text \<open>
  Modelled from the spec: the cause classes of \<open>kopf.reactor.causation\<close> are not among the
  sources; the fields are those that \<open>build_kwargs\<close> reads, grouped in the tiers of the
  specification. Every cause is a \<open>BaseCause\<close> and carries a logger. A tier is present
  exactly when \<open>isinstance\<close> holds for its class: \<open>activity\<close> for \<open>ActivityCause\<close>,
  \<open>resource\<close> for \<open>ResourceCause\<close>, and inside it \<open>watching\<close> for
  \<open>ResourceWatchingCause\<close> and \<open>changing\<close> for \<open>ResourceChangingCause\<close>, both
  subclasses of \<open>ResourceCause\<close>. The classes of kopf itself have one of the two inner
  tiers at most; a class inheriting from both is representable, as it is in Python.
\<close>

record watching_tier =
  raw :: val
  type :: val

record changing_tier =
  reason :: val
  diff :: val
  old :: val
  new :: val

record resource_tier =
  patch :: val
  memo :: val
  body :: "(string \<times> val) list"
  watching :: "watching_tier option"
  changing :: "changing_tier option"

record cause =
  logger :: val
  activity :: "val option"
  resource :: "resource_tier option"

text \<open>
  What a keyword argument can hold: a plain value, the cause object itself, or a
  \<open>dicts.DictView\<close> (a lazy view of one top-level key of a body; building one only stores
  the body and the key).
\<close>

datatype kwval =
    KVal val
  | KCause cause
  | DictView "(string \<times> val) list" string

type_synonym kwdict = "string \<rightharpoonup> kwval"

section \<open>\<open>build_kwargs\<close>\<close>

text \<open>\<open>d.get(k, default)\<close> and \<open>d.get(k)\<close> of a dictionary.\<close>

definition dict_get_default :: "(string \<times> val) list \<Rightarrow> string \<Rightarrow> val \<Rightarrow> val" where
  "dict_get_default d k dflt = (case map_of d k of None \<Rightarrow> dflt | Some v \<Rightarrow> v)"

text \<open>
  \<open>x.get(k)\<close> of any value: only a dictionary has the method, anything else raises
  \<open>AttributeError\<close>.
\<close>

definition val_get :: "val \<Rightarrow> string \<Rightarrow> exn + val" where
  "val_get x k = (case x of VDict d \<Rightarrow> Inr (dict_get_default d k VNone) | _ \<Rightarrow> Inl AttributeError)"

text \<open>\<open>cause.body.get('metadata', {}).get(k)\<close>\<close>

definition metadata_field :: "(string \<times> val) list \<Rightarrow> string \<Rightarrow> exn + val" where
  "metadata_field b k = val_get (dict_get_default b ''metadata'' (VDict [])) k"

text \<open>
  The two dictionaries that the body of \<open>build_kwargs\<close> can reach: the \<open>kwargs\<close> it was
  given and the \<open>new_kwargs\<close> it creates. Every statement is a step on this frame.
\<close>

record frame =
  kwargs :: kwdict
  new_kwargs :: kwdict

definition base_step :: "cause option \<Rightarrow> frame \<Rightarrow> frame" where
  "base_step c f = (case c of
       None \<Rightarrow> f
     | Some c' \<Rightarrow> f\<lparr>new_kwargs := (new_kwargs f)(''cause'' \<mapsto> KCause c', ''logger'' \<mapsto> KVal (logger c'))\<rparr>)"

definition activity_step :: "cause option \<Rightarrow> frame \<Rightarrow> frame" where
  "activity_step c f = (case c of
       None \<Rightarrow> f
     | Some c' \<Rightarrow> (case activity c' of
           None \<Rightarrow> f
         | Some a \<Rightarrow> f\<lparr>new_kwargs := (new_kwargs f)(''activity'' \<mapsto> KVal a)\<rparr>))"

text \<open>
  The arguments of the third \<open>update\<close> are evaluated before the call, left to right; the
  three \<open>get\<close> chains are the ones that can raise, and then nothing is written.
\<close>

definition resource_step :: "cause option \<Rightarrow> frame \<Rightarrow> exn option \<times> frame" where
  "resource_step c f = (case c of
       None \<Rightarrow> (None, f)
     | Some c' \<Rightarrow> (case resource c' of
           None \<Rightarrow> (None, f)
         | Some r \<Rightarrow> (case metadata_field (body r) ''uid'' of
               Inl e \<Rightarrow> (Some e, f)
             | Inr u \<Rightarrow> (case metadata_field (body r) ''name'' of
                   Inl e \<Rightarrow> (Some e, f)
                 | Inr n \<Rightarrow> (case metadata_field (body r) ''namespace'' of
                       Inl e \<Rightarrow> (Some e, f)
                     | Inr ns \<Rightarrow> (None, f\<lparr>new_kwargs := (new_kwargs f)(
                           ''patch'' \<mapsto> KVal (patch r),
                           ''memo'' \<mapsto> KVal (memo r),
                           ''body'' \<mapsto> KVal (VDict (body r)),
                           ''spec'' \<mapsto> DictView (body r) ''spec'',
                           ''meta'' \<mapsto> DictView (body r) ''metadata'',
                           ''status'' \<mapsto> DictView (body r) ''status'',
                           ''uid'' \<mapsto> KVal u,
                           ''name'' \<mapsto> KVal n,
                           ''namespace'' \<mapsto> KVal ns)\<rparr>))))))"

definition watching_step :: "cause option \<Rightarrow> frame \<Rightarrow> frame" where
  "watching_step c f = (case c of
       None \<Rightarrow> f
     | Some c' \<Rightarrow> (case resource c' of
           None \<Rightarrow> f
         | Some r \<Rightarrow> (case watching r of
               None \<Rightarrow> f
             | Some w \<Rightarrow> f\<lparr>new_kwargs := (new_kwargs f)(
                   ''event'' \<mapsto> KVal (raw w),
                   ''type'' \<mapsto> KVal (type w))\<rparr>)))"

definition changing_step :: "cause option \<Rightarrow> frame \<Rightarrow> frame" where
  "changing_step c f = (case c of
       None \<Rightarrow> f
     | Some c' \<Rightarrow> (case resource c' of
           None \<Rightarrow> f
         | Some r \<Rightarrow> (case changing r of
               None \<Rightarrow> f
             | Some g \<Rightarrow> f\<lparr>new_kwargs := (new_kwargs f)(
                   ''event'' \<mapsto> KVal (reason g),
                   ''reason'' \<mapsto> KVal (reason g),
                   ''diff'' \<mapsto> KVal (diff g),
                   ''old'' \<mapsto> KVal (old g),
                   ''new'' \<mapsto> KVal (new g))\<rparr>)))"

text \<open>
  The body of \<open>build_kwargs\<close>, statement by statement: \<open>new_kwargs = {}\<close>,
  \<open>new_kwargs.update(kwargs)\<close>, then the five guarded updates. The result is the
  exception raised on the way, if any, and the frame as it is left.
\<close>

definition build_kwargs_frame :: "cause option \<Rightarrow> kwdict \<Rightarrow> exn option \<times> frame" where
  "build_kwargs_frame c k =
     (let f0 = \<lparr>kwargs = k, new_kwargs = Map.empty\<rparr>;
          f1 = f0\<lparr>new_kwargs := new_kwargs f0 ++ kwargs f0\<rparr>;
          f2 = base_step c f1;
          f3 = activity_step c f2
      in case resource_step c f3 of
           (Some e, f4) \<Rightarrow> (Some e, f4)
         | (None, f4) \<Rightarrow> (None, changing_step c (watching_step c f4)))"

text \<open>What the caller gets: \<open>return new_kwargs\<close>, or the exception.\<close>

definition build_kwargs :: "cause option \<Rightarrow> kwdict \<Rightarrow> exn + kwdict" where
  "build_kwargs c k = (case build_kwargs_frame c k of
       (Some e, f) \<Rightarrow> Inl e
     | (None, f) \<Rightarrow> Inr (new_kwargs f))"

text \<open>
  A body as \<open>bodies.Body\<close> types it: the \<open>metadata\<close> entry, when there is one, is a
  mapping.
\<close>

definition metadata_ok :: "(string \<times> val) list \<Rightarrow> bool" where
  "metadata_ok b = (case map_of b ''metadata'' of
       None \<Rightarrow> True
     | Some (VDict md) \<Rightarrow> True
     | Some _ \<Rightarrow> False)"

text \<open>Sample causes: an update of an object with a name and no namespace.\<close>

definition sample_body :: "(string \<times> val) list" where
  "sample_body = [(''spec'', VDict []), (''metadata'', VDict [(''name'', VStr ''obj'')])]"

definition sample_changing :: changing_tier where
  "sample_changing = \<lparr>reason = VStr ''update'', diff = VObj 7, old = VObj 8, new = VObj 9\<rparr>"

definition sample_resource :: resource_tier where
  "sample_resource = \<lparr>patch = VObj 1, memo = VObj 2, body = sample_body,
     watching = Some \<lparr>raw = VObj 3, type = VStr ''MODIFIED''\<rparr>,
     changing = Some sample_changing\<rparr>"

definition sample_cause :: cause where
  "sample_cause = \<lparr>logger = VObj 0, activity = None, resource = Some sample_resource\<rparr>"

section \<open>\<open>is_async_fn\<close>\<close>

text \<open>
  The objects that \<open>is_async_fn\<close> can meet, in a heap addressed by object identity. A
  \<open>functools.partial\<close> holds its \<open>func\<close> (always a callable object), the bound positional
  arguments and the bound keywords. Any other object may have a \<open>__wrapped__\<close> attribute;
  the attribute refers to an object or holds \<open>None\<close>. The flag is what
  \<open>asyncio.iscoroutinefunction\<close> says of the object. A reference is an address or \<open>None\<close>.
\<close>

datatype pyobj =
    Partial nat "val list" "(string \<times> val) list"
  | Callable "nat option option" bool

type_synonym heap = "nat \<Rightarrow> pyobj"

text \<open>
  The function calls itself once per layer, and a Python call needs a free frame on the
  interpreter's stack: the first argument is the number of frames still free, and a call
  with none left raises \<open>RecursionError\<close>.
\<close>

fun is_async_fn :: "nat \<Rightarrow> heap \<Rightarrow> nat option \<Rightarrow> exn + bool" where
  "is_async_fn 0 h fn = Inl RecursionError"
| "is_async_fn (Suc d) h None = Inr False"
| "is_async_fn (Suc d) h (Some a) = (case h a of
       Partial func args keywords \<Rightarrow> is_async_fn d h (Some func)
     | Callable wrapped coro \<Rightarrow> (case wrapped of
           Some w \<Rightarrow> is_async_fn d h w
         | None \<Rightarrow> Inr coro))"

text \<open>
  The classification as the specification words it: \<open>None\<close> is not asynchronous, a partial
  application is what its inner callable is, a wrapper is what its wrapped target is, and
  any other callable is asynchronous iff it is a coroutine function. A reference has a
  classification exactly when its chain of layers ends.
\<close>

inductive classified :: "heap \<Rightarrow> nat option \<Rightarrow> bool \<Rightarrow> bool" where
  absent: "classified h None False"
| partial: "h a = Partial func args keywords \<Longrightarrow> classified h (Some func) b
     \<Longrightarrow> classified h (Some a) b"
| wrapper: "h a = Callable (Some w) coro \<Longrightarrow> classified h w b \<Longrightarrow> classified h (Some a) b"
| core: "h a = Callable None coro \<Longrightarrow> classified h (Some a) coro"

text \<open>
  Sample heaps. In the first, object 0 is a partial of object 1, which wraps object 2, a
  partial of object 3, a coroutine function. In the second, every object wraps itself.
\<close>

definition sample_heap :: heap where
  "sample_heap a =
     (if a = 0 then Partial 1 [VInt 1] []
      else if a = 1 then Callable (Some (Some 2)) False
      else if a = 2 then Partial 3 [] [(''x'', VInt 2)]
      else Callable None True)"

definition cyclic_heap :: heap where
  "cyclic_heap a = Callable (Some (Some a)) False"

section \<open>The \<open>context\<close> manager\<close>

text \<open>
  Context variables as \<open>contextvars\<close> has them. A \<open>ContextVar\<close> is known by its identity.
  The current \<open>Context\<close> has an identity too and maps each variable to its value, or to
  nothing when the variable is unset. \<open>var.set\<close> returns a token that remembers the
  variable, what it held before and the \<open>Context\<close> it was made in. \<open>var.reset(token)\<close>
  raises \<open>ValueError\<close> for a token of another variable or of another \<open>Context\<close> and
  otherwise puts the old state back. (A token can be used once; the manager resets each of
  its tokens once, and nothing else can reach them.)
\<close>

record ctx =
  ctx_id :: nat
  bindings :: "nat \<Rightarrow> val option"

record token =
  tok_var :: nat
  tok_old :: "val option"
  tok_ctx :: nat

definition var_set :: "nat \<Rightarrow> val \<Rightarrow> ctx \<Rightarrow> token \<times> ctx" where
  "var_set var v c =
     (\<lparr>tok_var = var, tok_old = bindings c var, tok_ctx = ctx_id c\<rparr>,
      c\<lparr>bindings := (bindings c)(var := Some v)\<rparr>)"

definition var_reset :: "nat \<Rightarrow> token \<Rightarrow> ctx \<Rightarrow> exn + ctx" where
  "var_reset var t c =
     (if tok_var t \<noteq> var then Inl ValueError
      else if tok_ctx t \<noteq> ctx_id c then Inl ValueError
      else Inr (c\<lparr>bindings := (bindings c)(var := tok_old t)\<rparr>))"

text \<open>The loop of the \<open>try\<close> block: set each variable, append its token.\<close>

fun set_all :: "(nat \<times> val) list \<Rightarrow> (nat \<times> token) list \<Rightarrow> ctx \<Rightarrow> (nat \<times> token) list \<times> ctx" where
  "set_all [] tokens c = (tokens, c)"
| "set_all ((var, v) # values) tokens c =
     (case var_set var v c of (t, c') \<Rightarrow> set_all values (tokens @ [(var, t)]) c')"

text \<open>
  The loop of the \<open>finally\<close> block over the tokens it is given (the caller reverses the
  list). A reset that raises ends the loop, and the exception leaves the manager. The last
  component records on which variables \<open>reset\<close> was called, in order.
\<close>

fun reset_all :: "(nat \<times> token) list \<Rightarrow> ctx \<Rightarrow> nat list \<Rightarrow> exn option \<times> ctx \<times> nat list" where
  "reset_all [] c called = (None, c, called)"
| "reset_all ((var, t) # tokens) c called =
     (case var_reset var t c of
        Inl e \<Rightarrow> (Some e, c, called @ [var])
      | Inr c' \<Rightarrow> reset_all tokens c' (called @ [var]))"

text \<open>
  \<open>with context(values): block\<close>. The block is any code: it gets the context after the
  bindings and leaves a context and possibly an exception (an error or a cancellation). The
  \<open>finally\<close> block runs on both paths. An exception of the block leaves the manager after it,
  unless a reset raises, which then is the exception that leaves.
\<close>

definition context_scope ::
  "(nat \<times> val) list \<Rightarrow> (ctx \<Rightarrow> exn option \<times> ctx) \<Rightarrow> ctx \<Rightarrow> exn option \<times> ctx \<times> nat list" where
  "context_scope values block c =
     (case set_all values [] c of (tokens, c1) \<Rightarrow>
        (case block c1 of (raised, c2) \<Rightarrow>
           (case reset_all (rev tokens) c2 [] of
              (Some e, c3, called) \<Rightarrow> (Some e, c3, called)
            | (None, c3, called) \<Rightarrow> (raised, c3, called))))"

text \<open>A sample context, and a block that is resumed in another \<open>Context\<close>.\<close>

definition sample_ctx :: ctx where
  "sample_ctx = \<lparr>ctx_id = 0, bindings = (\<lambda>var. if var = 0 then Some (VInt 10) else None)\<rparr>"

definition moving_block :: "ctx \<Rightarrow> exn option \<times> ctx" where
  "moving_block c = (None, c\<lparr>ctx_id := Suc (ctx_id c)\<rparr>)"


definition sample_values :: "(nat \<times> val) list" where
  "sample_values = [(0, VInt 1), (1, VInt 2), (0, VInt 3)]"

section \<open>\<open>invoke\<close>\<close>

text \<open>
  What the caller of \<open>invoke\<close> cannot decide is given from outside. The handler is given
  by what a call of it does with its arguments: it returns a value or raises. For a blocking
  handler this is how the worker thread ends, and so the state in which the future completes.
  The scheduler is given by how each \<open>await asyncio.shield(future)\<close> ends, in order:
  \<^item> \<open>Completed\<close>: the future has completed, and the await returns its result or raises its
    exception;
  \<^item> \<open>Cancelled c done\<close>: the waiting task was cancelled, and the await raises the
    cancellation \<open>c\<close>; the future is untouched by this, and \<open>done\<close> says whether it has
    completed meanwhile, which is what the next \<open>future.done()\<close> reads.
  A schedule that runs out while the future is pending is a wait that has not ended.
\<close>

datatype event = Completed | Cancelled nat bool

fun is_cancelled :: "exn \<Rightarrow> bool" where
  "is_cancelled (CancelledError c) = True"
| "is_cancelled _ = False"

text \<open>
  The \<open>while\<close> loop. The arguments are the outcome of the handler, \<open>future.done()\<close> and the
  variable \<open>cancellation\<close>. The result is \<open>None\<close> while the wait goes on, an exception that
  leaves the loop (one that the \<open>except\<close> clause does not catch), or the value of
  \<open>cancellation\<close> at the regular exit of the loop.
\<close>

fun wait_loop :: "exn + val \<Rightarrow> bool \<Rightarrow> exn option \<Rightarrow> event list \<Rightarrow> (exn + exn option) option" where
  "wait_loop out True cancellation evs = Some (Inr cancellation)"
| "wait_loop out False cancellation [] = None"
| "wait_loop out False cancellation (Completed # evs) =
     (case out of
        Inr v \<Rightarrow> wait_loop out True cancellation evs
      | Inl e \<Rightarrow> if is_cancelled e then wait_loop out True (Some e) evs else Some (Inl e))"
| "wait_loop out False cancellation (Cancelled c done # evs) =
     wait_loop out done (Some (CancelledError c)) evs"

text \<open>
  After the loop: \<open>if cancellation is not None: raise cancellation\<close>, then
  \<open>result = future.result()\<close>, which returns the value of the future or raises its exception.
\<close>

definition after_wait :: "exn + val \<Rightarrow> exn option \<Rightarrow> exn + val" where
  "after_wait out cancellation = (case cancellation of Some c \<Rightarrow> Inl c | None \<Rightarrow> out)"

text \<open>
  \<open>invoke\<close>. The arguments are the free stack frames and the heap for \<open>is_async_fn\<close>, the
  reference \<open>fn\<close>, what a call of \<open>fn\<close> does, the positional arguments, the cause, the
  keyword arguments, and the schedule. The result is \<open>None\<close> while the wait goes on;
  otherwise it is the list of the calls of \<open>fn\<close> that were made, each with its arguments, and
  what the caller gets. An asynchronous handler is called and awaited in place. A blocking one
  is bound into a \<open>functools.partial\<close>, which raises \<open>TypeError\<close> for \<open>None\<close>, and handed to
  the executor; its thread calls it once, and the future is pending when the loop is entered.
\<close>

definition invoke ::
  "nat \<Rightarrow> heap \<Rightarrow> nat option \<Rightarrow> (val list \<Rightarrow> kwdict \<Rightarrow> exn + val) \<Rightarrow> val list \<Rightarrow> cause option
   \<Rightarrow> kwdict \<Rightarrow> event list \<Rightarrow> ((val list \<times> kwdict) list \<times> (exn + val)) option" where
  "invoke d h fn behaviour args cause kws sched =
     (case build_kwargs cause kws of
        Inl e \<Rightarrow> Some ([], Inl e)
      | Inr kw \<Rightarrow> (case is_async_fn d h fn of
           Inl e \<Rightarrow> Some ([], Inl e)
         | Inr True \<Rightarrow> Some ([(args, kw)], behaviour args kw)
         | Inr False \<Rightarrow> (case fn of
              None \<Rightarrow> Some ([], Inl TypeError)
            | Some a \<Rightarrow> (case wait_loop (behaviour args kw) False None sched of
                 None \<Rightarrow> None
               | Some (Inl e) \<Rightarrow> Some ([(args, kw)], Inl e)
               | Some (Inr cancellation) \<Rightarrow>
                   Some ([(args, kw)], after_wait (behaviour args kw) cancellation)))))"

text \<open>
  Whether an event reports the future as completed, and what the \<open>except\<close> clause has
  recorded after a run of cancellations.
\<close>

fun completes :: "event \<Rightarrow> bool" where
  "completes Completed = True"
| "completes (Cancelled c done) = done"

fun recorded :: "exn option \<Rightarrow> event list \<Rightarrow> exn option" where
  "recorded cancellation [] = cancellation"
| "recorded cancellation (Completed # evs) = recorded cancellation evs"
| "recorded cancellation (Cancelled c done # evs) = recorded (Some (CancelledError c)) evs"

text \<open>Sample handlers: a plain function (object 7 of this heap) and a coroutine function.\<close>

definition plain_heap :: heap where
  "plain_heap a = Callable None (a \<noteq> 7)"

definition raising :: "val list \<Rightarrow> kwdict \<Rightarrow> exn + val" where
  "raising args kw = Inl (Raised 1)"


section \<open>The hierarchy helpers\<close>

text \<open>
  The ambient \<open>handling.cause_var\<close>: unset (\<open>get\<close> raises \<open>LookupError\<close>), or set to \<open>None\<close>
  or to a cause. An owner is a body, a dictionary.
\<close>

type_synonym cause_var = "cause option option"

type_synonym obj = "(string \<times> val) list"

definition guess_owner :: "cause_var \<Rightarrow> obj option \<Rightarrow> exn + obj" where
  "guess_owner cv owner = (case owner of
       Some b \<Rightarrow> Inr b
     | None \<Rightarrow> (case cv of
           None \<Rightarrow> Inl LookupError
         | Some None \<Rightarrow> Inl LookupError
         | Some (Some c) \<Rightarrow> (case resource c of
               Some r \<Rightarrow> Inr (body r)
             | None \<Rightarrow> Inl LookupError)))"

text \<open>
  Modelled from the spec: \<open>dicts.walk\<close> is not among the sources, and the specification
  leaves the hierarchy helpers at their interface. \<open>objs\<close> is taken as the list of the
  objects that \<open>dicts.walk(objs)\<close> yields, each a dictionary as \<open>K8sObject\<close> types it. The argument \<open>nested\<close> of \<open>label\<close> and \<open>adopt\<close> only selects further targets inside
  the objects and is left at its default \<open>None\<close>. The loop runs the body on each target in
  turn; when the body raises, the target keeps what was written to it before, the targets
  after it are untouched, and the exception leaves the function.
\<close>

fun for_each :: "(obj \<Rightarrow> exn option \<times> obj) \<Rightarrow> obj list \<Rightarrow> exn option \<times> obj list" where
  "for_each f [] = (None, [])"
| "for_each f (x # xs) = (case f x of
       (Some e, x') \<Rightarrow> (Some e, x' # xs)
     | (None, x') \<Rightarrow> (case for_each f xs of (r, xs') \<Rightarrow> (r, x' # xs')))"

text \<open>
  \<open>obj.setdefault('metadata', {})\<close>: the object after the call and the value returned,
  which is the entry of the object, not a copy.
\<close>

definition setdefault_metadata :: "obj \<Rightarrow> obj \<times> val" where
  "setdefault_metadata x = (case map_of x ''metadata'' of
       Some md \<Rightarrow> (x, md)
     | None \<Rightarrow> (AList.update ''metadata'' (VDict []) x, VDict []))"

text \<open>
  \<open>obj.setdefault('metadata', {}).setdefault(k, dflt)\<close>: the object after the two calls and
  the value returned; a \<open>metadata\<close> that is not a dictionary has no \<open>setdefault\<close>.
\<close>

definition setdefault_entry :: "string \<Rightarrow> val \<Rightarrow> obj \<Rightarrow> exn + obj \<times> val" where
  "setdefault_entry k dflt x = (case setdefault_metadata x of (x1, md) \<Rightarrow>
     (case md of
        VDict m \<Rightarrow> (case map_of m k of
            Some v \<Rightarrow> Inr (x1, v)
          | None \<Rightarrow> Inr (AList.update ''metadata'' (VDict (AList.update k dflt m)) x1, dflt))
      | _ \<Rightarrow> Inl AttributeError))"

text \<open>
  What a \<open>for\<close> over a value goes through: the items of a list, the keys of a dictionary,
  the characters of a string; anything else is not iterable.
\<close>

definition iterate :: "val \<Rightarrow> exn + val list" where
  "iterate v = (case v of
       VList xs \<Rightarrow> Inr xs
     | VDict d \<Rightarrow> Inr (map (\<lambda>kv. VStr (fst kv)) d)
     | VStr s \<Rightarrow> Inr (map (\<lambda>c. VStr [c]) s)
     | _ \<Rightarrow> Inl TypeError)"

text \<open>
  \<open>[ref for ref in refs if ref.get('uid') == owner_ref['uid']]\<close> over the items: for each
  item first \<open>ref.get\<close>, then the subscript of \<open>owner_ref\<close>, then the comparison, which is
  equality of the values (Python's \<open>==\<close> on strings, as the uids are).
\<close>

fun matching_refs :: "obj \<Rightarrow> val list \<Rightarrow> exn + val list" where
  "matching_refs owner_ref [] = Inr []"
| "matching_refs owner_ref (ref # refs) = (case val_get ref ''uid'' of
       Inl e \<Rightarrow> Inl e
     | Inr u \<Rightarrow> (case map_of owner_ref ''uid'' of
           None \<Rightarrow> Inl KeyError
         | Some ou \<Rightarrow> (case matching_refs owner_ref refs of
               Inl e \<Rightarrow> Inl e
             | Inr ms \<Rightarrow> Inr (if u = ou then ref # ms else ms))))"

definition matching :: "obj \<Rightarrow> val \<Rightarrow> exn + val list" where
  "matching owner_ref refs = (case iterate refs of
       Inl e \<Rightarrow> Inl e
     | Inr items \<Rightarrow> matching_refs owner_ref items)"

text \<open>
  A value reached through \<open>metadata\<close> is an entry of the object, so a change of it is a
  change of the object: writing it back under \<open>metadata\<close> and its key.
\<close>

definition put_entry :: "string \<Rightarrow> val \<Rightarrow> obj \<Rightarrow> obj" where
  "put_entry k v x = (case map_of x ''metadata'' of
       Some (VDict m) \<Rightarrow> AList.update ''metadata'' (VDict (AList.update k v m)) x
     | _ \<Rightarrow> x)"

text \<open>The loop body of \<open>append_owner_reference\<close>; only a list has \<open>append\<close>.\<close>

definition append_owner_reference_obj :: "obj \<Rightarrow> obj \<Rightarrow> exn option \<times> obj" where
  "append_owner_reference_obj owner_ref x = (case setdefault_entry ''ownerReferences'' (VList []) x of
       Inl e \<Rightarrow> (Some e, fst (setdefault_metadata x))
     | Inr (x1, refs) \<Rightarrow> (case matching owner_ref refs of
           Inl e \<Rightarrow> (Some e, x1)
         | Inr ms \<Rightarrow> if ms = [] then (case refs of
               VList rs \<Rightarrow> (None, put_entry ''ownerReferences'' (VList (rs @ [VDict owner_ref])) x1)
             | _ \<Rightarrow> (Some AttributeError, x1))
           else (None, x1)))"

text \<open>
  \<open>bodies.build_owner_reference\<close> is not among the sources: it is a parameter of the
  functions that call it, a function from the owner to the reference or to an exception.
\<close>

definition append_owner_reference ::
  "(obj \<Rightarrow> exn + obj) \<Rightarrow> cause_var \<Rightarrow> obj list \<Rightarrow> obj option \<Rightarrow> exn option \<times> obj list" where
  "append_owner_reference build_owner_reference cv objs owner = (case guess_owner cv owner of
       Inl e \<Rightarrow> (Some e, objs)
     | Inr real_owner \<Rightarrow> (case build_owner_reference real_owner of
           Inl e \<Rightarrow> (Some e, objs)
         | Inr owner_ref \<Rightarrow> for_each (append_owner_reference_obj owner_ref) objs))"

text \<open>
  The loop body of \<open>remove_owner_reference\<close>: \<open>refs.remove(ref)\<close> for each matching item
  takes out the first item equal to it. There are matching items only when \<open>refs\<close> is a list.
\<close>

definition remove_owner_reference_obj :: "obj \<Rightarrow> obj \<Rightarrow> exn option \<times> obj" where
  "remove_owner_reference_obj owner_ref x = (case setdefault_entry ''ownerReferences'' (VList []) x of
       Inl e \<Rightarrow> (Some e, fst (setdefault_metadata x))
     | Inr (x1, refs) \<Rightarrow> (case matching owner_ref refs of
           Inl e \<Rightarrow> (Some e, x1)
         | Inr ms \<Rightarrow> (case refs of
               VList rs \<Rightarrow> (None, put_entry ''ownerReferences'' (VList (fold remove1 ms rs)) x1)
             | _ \<Rightarrow> (None, x1))))"

definition remove_owner_reference ::
  "(obj \<Rightarrow> exn + obj) \<Rightarrow> cause_var \<Rightarrow> obj list \<Rightarrow> obj option \<Rightarrow> exn option \<times> obj list" where
  "remove_owner_reference build_owner_reference cv objs owner = (case guess_owner cv owner of
       Inl e \<Rightarrow> (Some e, objs)
     | Inr real_owner \<Rightarrow> (case build_owner_reference real_owner of
           Inl e \<Rightarrow> (Some e, objs)
         | Inr owner_ref \<Rightarrow> for_each (remove_owner_reference_obj owner_ref) objs))"

text \<open>
  \<open>label\<close>. The deprecated \<open>force\<close>, when given, replaces \<open>forced\<close>. The labels are gone
  through with \<open>labels.items()\<close>, which only a dictionary has. An item is written with a
  subscript assignment when forced (anything but a dictionary raises \<open>TypeError\<close>) and with
  \<open>setdefault\<close> otherwise (anything but a dictionary raises \<open>AttributeError\<close>).
\<close>

fun apply_labels :: "bool \<Rightarrow> (string \<times> val) list \<Rightarrow> val \<Rightarrow> exn + val" where
  "apply_labels forced [] obj_labels = Inr obj_labels"
| "apply_labels forced ((key, v) # items) obj_labels = (case obj_labels of
       VDict d \<Rightarrow> apply_labels forced items
           (VDict (if forced \<or> map_of d key = None then AList.update key v d else d))
     | _ \<Rightarrow> Inl (if forced then TypeError else AttributeError))"

definition label_obj :: "val \<Rightarrow> bool \<Rightarrow> obj \<Rightarrow> exn option \<times> obj" where
  "label_obj labels forced x = (case setdefault_entry ''labels'' (VDict []) x of
       Inl e \<Rightarrow> (Some e, fst (setdefault_metadata x))
     | Inr (x1, obj_labels) \<Rightarrow> (case labels of
           VDict items \<Rightarrow> (case apply_labels forced items obj_labels of
               Inl e \<Rightarrow> (Some e, x1)
             | Inr obj_labels' \<Rightarrow> (None, put_entry ''labels'' obj_labels' x1))
         | _ \<Rightarrow> (Some AttributeError, x1)))"

definition label :: "obj list \<Rightarrow> val \<Rightarrow> bool \<Rightarrow> bool option \<Rightarrow> exn option \<times> obj list" where
  "label objs labels forced force =
     for_each (label_obj labels (case force of Some f \<Rightarrow> f | None \<Rightarrow> forced)) objs"

text \<open>
  \<open>set(obj['metadata']) & {'name', 'generateName'}\<close> is not empty. Building the set needs
  an iterable whose items are hashable, which lists and dictionaries are not.
\<close>

definition hashable :: "val \<Rightarrow> bool" where
  "hashable v = (case v of VList xs \<Rightarrow> False | VDict d \<Rightarrow> False | _ \<Rightarrow> True)"

definition has_name :: "val \<Rightarrow> exn + bool" where
  "has_name md = (case iterate md of
       Inl e \<Rightarrow> Inl e
     | Inr items \<Rightarrow> if list_all hashable items
         then Inr (VStr ''name'' \<in> set items \<or> VStr ''generateName'' \<in> set items)
         else Inl TypeError)"

text \<open>
  \<open>obj.setdefault('metadata', {})[k] = v\<close>, and then \<open>del obj['metadata'][k']\<close> if the
  key \<open>k'\<close> is there. A subscript assignment with a string needs a dictionary.
\<close>

definition set_entry :: "string \<Rightarrow> val \<Rightarrow> obj \<Rightarrow> exn option \<times> obj" where
  "set_entry k v x = (case setdefault_metadata x of (x1, md) \<Rightarrow>
     (case md of
        VDict m \<Rightarrow> (None, AList.update ''metadata'' (VDict (AList.update k v m)) x1)
      | _ \<Rightarrow> (Some TypeError, x1)))"

definition del_entry :: "string \<Rightarrow> obj \<Rightarrow> obj" where
  "del_entry k x = (case map_of x ''metadata'' of
       Some (VDict m) \<Rightarrow> AList.update ''metadata'' (VDict (AList.delete k m)) x
     | _ \<Rightarrow> x)"

text \<open>
  The loop body of \<open>harmonize_naming\<close>. \<open>noname\<close> is computed first, whatever \<open>forced\<close>
  is. The text of \<open>name\<close> in the f-string is Python's formatting of the value, a parameter.
\<close>

definition harmonize_naming_obj ::
  "(val \<Rightarrow> string) \<Rightarrow> val \<Rightarrow> bool \<Rightarrow> bool \<Rightarrow> obj \<Rightarrow> exn option \<times> obj" where
  "harmonize_naming_obj str_of name forced strict x =
     (case (case map_of x ''metadata'' of
              None \<Rightarrow> Inr True
            | Some md \<Rightarrow> (case has_name md of Inl e \<Rightarrow> Inl e | Inr b \<Rightarrow> Inr (\<not> b))) of
        Inl e \<Rightarrow> (Some e, x)
      | Inr noname \<Rightarrow>
          if forced \<or> noname then
            (if strict then
               (case set_entry ''name'' name x of
                  (Some e, x1) \<Rightarrow> (Some e, x1)
                | (None, x1) \<Rightarrow> (None, del_entry ''generateName'' x1))
             else
               (case set_entry ''generateName'' (VStr (str_of name @ ''-'')) x of
                  (Some e, x1) \<Rightarrow> (Some e, x1)
                | (None, x1) \<Rightarrow> (None, del_entry ''name'' x1)))
          else (None, x))"

definition harmonize_naming ::
  "(val \<Rightarrow> string) \<Rightarrow> cause_var \<Rightarrow> obj list \<Rightarrow> val \<Rightarrow> bool \<Rightarrow> bool \<Rightarrow> exn option \<times> obj list" where
  "harmonize_naming str_of cv objs name forced strict =
     (case (if name = VNone
            then (case guess_owner cv None of
                    Inl e \<Rightarrow> Inl e
                  | Inr real_owner \<Rightarrow> metadata_field real_owner ''name'')
            else Inr name) of
        Inl e \<Rightarrow> (Some e, objs)
      | Inr name' \<Rightarrow> for_each (harmonize_naming_obj str_of name' forced strict) objs)"

text \<open>
  The loop body of \<open>adjust_namespace\<close>: with \<open>forced\<close> the \<open>get\<close> chain is not evaluated.
\<close>

definition adjust_namespace_obj :: "val \<Rightarrow> bool \<Rightarrow> obj \<Rightarrow> exn option \<times> obj" where
  "adjust_namespace_obj namespace forced x =
     (if forced then set_entry ''namespace'' namespace x
      else (case metadata_field x ''namespace'' of
              Inl e \<Rightarrow> (Some e, x)
            | Inr ns \<Rightarrow> if ns = VNone then set_entry ''namespace'' namespace x else (None, x)))"

definition adjust_namespace ::
  "cause_var \<Rightarrow> obj list \<Rightarrow> val \<Rightarrow> bool \<Rightarrow> exn option \<times> obj list" where
  "adjust_namespace cv objs namespace forced =
     (case (if namespace = VNone
            then (case guess_owner cv None of
                    Inl e \<Rightarrow> Inl e
                  | Inr real_owner \<Rightarrow> metadata_field real_owner ''namespace'')
            else Inr namespace) of
        Inl e \<Rightarrow> (Some e, objs)
      | Inr namespace' \<Rightarrow> for_each (adjust_namespace_obj namespace' forced) objs)"

text \<open>\<open>x.get(k, dflt)\<close> of any value.\<close>

definition val_get_default :: "val \<Rightarrow> string \<Rightarrow> val \<Rightarrow> exn + val" where
  "val_get_default x k dflt = (case x of
       VDict d \<Rightarrow> Inr (dict_get_default d k dflt)
     | _ \<Rightarrow> Inl AttributeError)"

text \<open>
  \<open>adopt\<close>: the owner is guessed once, and then the four helpers run in order, each on
  the objects as the one before left them; the arguments of a call are evaluated just
  before it.
\<close>

definition adopt ::
  "(obj \<Rightarrow> exn + obj) \<Rightarrow> (val \<Rightarrow> string) \<Rightarrow> cause_var \<Rightarrow> obj list \<Rightarrow> obj option
   \<Rightarrow> exn option \<times> obj list" where
  "adopt build_owner_reference str_of cv objs owner = (case guess_owner cv owner of
       Inl e \<Rightarrow> (Some e, objs)
     | Inr real_owner \<Rightarrow>
        (case append_owner_reference build_owner_reference cv objs (Some real_owner) of
           (Some e, objs1) \<Rightarrow> (Some e, objs1)
         | (None, objs1) \<Rightarrow> (case metadata_field real_owner ''name'' of
              Inl e \<Rightarrow> (Some e, objs1)
            | Inr name \<Rightarrow> (case harmonize_naming str_of cv objs1 name False False of
                 (Some e, objs2) \<Rightarrow> (Some e, objs2)
               | (None, objs2) \<Rightarrow> (case metadata_field real_owner ''namespace'' of
                    Inl e \<Rightarrow> (Some e, objs2)
                  | Inr namespace \<Rightarrow> (case adjust_namespace cv objs2 namespace False of
                       (Some e, objs3) \<Rightarrow> (Some e, objs3)
                     | (None, objs3) \<Rightarrow>
                        (case val_get_default (dict_get_default real_owner ''metadata'' (VDict []))
                                ''labels'' (VDict []) of
                           Inl e \<Rightarrow> (Some e, objs3)
                         | Inr labels \<Rightarrow> label objs3 labels False None)))))))"

text \<open>
  Whether the ambient variable gives no owner: it is unset, or holds \<open>None\<close>, or holds a
  cause that is not a \<open>ResourceCause\<close>.
\<close>

definition no_ambient_owner :: "cause_var \<Rightarrow> bool" where
  "no_ambient_owner cv = (case cv of
       None \<Rightarrow> True
     | Some None \<Rightarrow> True
     | Some (Some c) \<Rightarrow> resource c = None)"

text \<open>
  Samples: an owner with a name and no namespace (a cluster-scoped object), a reference
  builder, a formatting, an ambient cause of another object, and one child.
\<close>

definition sample_owner :: obj where
  "sample_owner = [(''metadata'', VDict [(''name'', VStr ''parent''), (''uid'', VStr ''u1'')])]"

definition sample_build_owner_reference :: "obj \<Rightarrow> exn + obj" where
  "sample_build_owner_reference b = (case metadata_field b ''uid'' of
       Inl e \<Rightarrow> Inl e
     | Inr u \<Rightarrow> Inr [(''uid'', u)])"

definition sample_str_of :: "val \<Rightarrow> string" where
  "sample_str_of v = (case v of VStr s \<Rightarrow> s | _ \<Rightarrow> ''None'')"

definition ambient_cause :: cause where
  "ambient_cause = \<lparr>logger = VObj 0, activity = None, resource = Some
     \<lparr>patch = VObj 1, memo = VObj 2,
      body = [(''metadata'', VDict [(''name'', VStr ''other''), (''namespace'', VStr ''ns1'')])],
      watching = None, changing = None\<rparr>\<rparr>"

definition activity_cause :: cause where
  "activity_cause = \<lparr>logger = VObj 0, activity = Some (VStr ''startup''), resource = None\<rparr>"

definition sample_child :: obj where
  "sample_child = [(''kind'', VStr ''Pod'')]"

definition namespaced_owner :: obj where
  "namespaced_owner =
     [(''metadata'', VDict [(''name'', VStr ''other''), (''namespace'', VStr ''ns1'')])]"

section \<open>Properties of \<open>build_kwargs\<close>\<close>

lemma metadata_field_value:
  "metadata_ok b \<Longrightarrow> metadata_field b k =
     Inr (case map_of b ''metadata'' of
            Some (VDict md) \<Rightarrow> (case map_of md k of Some v \<Rightarrow> v | None \<Rightarrow> VNone)
          | _ \<Rightarrow> VNone)"
  by (auto simp: metadata_ok_def metadata_field_def val_get_def dict_get_default_def
      split: option.splits val.splits)




lemma new_kwargs_watching_step_other:
  "k \<notin> {''event'', ''type''} \<Longrightarrow> new_kwargs (watching_step c f) k = new_kwargs f k"
  by (simp add: watching_step_def split: option.splits)

lemma new_kwargs_changing_step_other:
  "k \<notin> {''event'', ''reason'', ''diff'', ''old'', ''new''}
   \<Longrightarrow> new_kwargs (changing_step c f) k = new_kwargs f k"
  by (simp add: changing_step_def split: option.splits)



lemma resource_step_ok:
  assumes "resource c = Some r" "metadata_ok (body r)"
  shows "\<exists>f'. resource_step (Some c) f = (None, f')"
proof -
  have "\<exists>v. metadata_field (body r) k = Inr v" for k
    by (simp add: metadata_field_value [OF assms(2)])
  then obtain u n ns where "metadata_field (body r) ''uid'' = Inr u"
    "metadata_field (body r) ''name'' = Inr n" "metadata_field (body r) ''namespace'' = Inr ns"
    by blast
  then show ?thesis
    using assms(1) by (simp add: resource_step_def)
qed

lemma resource_step_metadata:
  assumes "resource c = Some r" "resource_step (Some c) f = (None, f')"
    and "k \<in> {''uid'', ''name'', ''namespace''}"
  shows "\<exists>v. metadata_field (body r) k = Inr v \<and> new_kwargs f' k = Some (KVal v)"
  using assms by (auto simp: resource_step_def split: sum.splits)

text \<open>With a well-typed body the builder returns, and the result is the frame after the last two steps.\<close>

lemma build_kwargs_ok:
  assumes "resource c = Some r" "metadata_ok (body r)"
  shows "\<exists>f4. resource_step (Some c) (activity_step (Some c) (base_step (Some c)
            \<lparr>kwargs = K, new_kwargs = Map.empty ++ K\<rparr>)) = (None, f4)
     \<and> build_kwargs (Some c) K =
         Inr (new_kwargs (changing_step (Some c) (watching_step (Some c) f4)))"
proof -
  let ?f3 = "activity_step (Some c) (base_step (Some c) \<lparr>kwargs = K, new_kwargs = Map.empty ++ K\<rparr>)"
  obtain f4 where rs: "resource_step (Some c) ?f3 = (None, f4)"
    using resource_step_ok [OF assms] by blast
  then show ?thesis
    by (simp add: build_kwargs_def build_kwargs_frame_def Let_def)
qed



lemma build_kwargs_None: "build_kwargs None K = Inr K"
  by (simp add: build_kwargs_def build_kwargs_frame_def Let_def base_step_def activity_step_def
      resource_step_def watching_step_def changing_step_def)

lemma kwargs_base_step: "kwargs (base_step c f) = kwargs f"
  by (simp add: base_step_def split: option.splits)

lemma kwargs_activity_step: "kwargs (activity_step c f) = kwargs f"
  by (simp add: activity_step_def split: option.splits)

lemma kwargs_resource_step: "kwargs (snd (resource_step c f)) = kwargs f"
  by (simp add: resource_step_def split: option.splits sum.splits)

lemma kwargs_watching_step: "kwargs (watching_step c f) = kwargs f"
  by (simp add: watching_step_def split: option.splits)

lemma kwargs_changing_step: "kwargs (changing_step c f) = kwargs f"
  by (simp add: changing_step_def split: option.splits)

lemma kwargs_build_kwargs_frame: "kwargs (snd (build_kwargs_frame c K)) = K"
proof -
  let ?f3 = "activity_step c (base_step c \<lparr>kwargs = K, new_kwargs = Map.empty ++ K\<rparr>)"
  have f3: "kwargs ?f3 = K"
    by (simp add: kwargs_activity_step kwargs_base_step)
  obtain e f4 where r: "resource_step c ?f3 = (e, f4)"
    by (cases "resource_step c ?f3")
  have f4: "kwargs f4 = K"
    using kwargs_resource_step [of c ?f3] r f3 by simp
  show ?thesis
    using r f4
    by (cases e) (simp_all add: build_kwargs_frame_def Let_def kwargs_changing_step kwargs_watching_step)
qed

text \<open>
  Claim C4. Without a cause, \<open>build_kwargs\<close> returns a mapping equal to the explicit keyword
  arguments. With any cause or none, and whether the builder returns or raises, the
  \<open>kwargs\<close> dictionary it was given is left as it was: every write goes to \<open>new_kwargs\<close>.
\<close>

theorem build_kwargs_no_cause:
  "build_kwargs None K = Inr K \<and> (\<forall>c. kwargs (snd (build_kwargs_frame c K)) = K)"
proof (intro conjI allI)
  show "build_kwargs None K = Inr K"
    by (rule build_kwargs_None)
  show "kwargs (snd (build_kwargs_frame c K)) = K" for c
    by (rule kwargs_build_kwargs_frame)
qed

text \<open>
  Claim C9. For a resource cause whose body has no \<open>metadata\<close> entry, or has a \<open>metadata\<close>
  mapping that lacks \<open>uid\<close>, \<open>name\<close> or \<open>namespace\<close>, \<open>build_kwargs\<close> does not raise: it
  returns a mapping in which each of the three keys holds the metadata field when it is
  there and \<open>None\<close> when the field or the whole \<open>metadata\<close> entry is absent.
\<close>

theorem build_kwargs_defensive_metadata:
  assumes "resource c = Some r" "metadata_ok (body r)"
  shows "\<exists>m. build_kwargs (Some c) K = Inr m \<and>
     (\<forall>k \<in> {''uid'', ''name'', ''namespace''}. m k = Some (KVal
        (case map_of (body r) ''metadata'' of
           Some (VDict md) \<Rightarrow> (case map_of md k of Some v \<Rightarrow> v | None \<Rightarrow> VNone)
         | _ \<Rightarrow> VNone)))"
proof -
  let ?f3 = "activity_step (Some c) (base_step (Some c) \<lparr>kwargs = K, new_kwargs = Map.empty ++ K\<rparr>)"
  obtain f4 where rs: "resource_step (Some c) ?f3 = (None, f4)"
    and bk: "build_kwargs (Some c) K =
       Inr (new_kwargs (changing_step (Some c) (watching_step (Some c) f4)))"
    using build_kwargs_ok [OF assms] by blast
  let ?m = "new_kwargs (changing_step (Some c) (watching_step (Some c) f4))"
  have "?m k = Some (KVal (case map_of (body r) ''metadata'' of
           Some (VDict md) \<Rightarrow> (case map_of md k of Some v \<Rightarrow> v | None \<Rightarrow> VNone)
         | _ \<Rightarrow> VNone))" if k: "k \<in> {''uid'', ''name'', ''namespace''}" for k
  proof -
    have "?m k = new_kwargs (watching_step (Some c) f4) k"
      using k by (intro new_kwargs_changing_step_other) auto
    also have "\<dots> = new_kwargs f4 k"
      using k by (intro new_kwargs_watching_step_other) auto
    finally have "?m k = new_kwargs f4 k" .
    moreover obtain v where "metadata_field (body r) k = Inr v" "new_kwargs f4 k = Some (KVal v)"
      using resource_step_metadata [OF assms(1) rs k] by blast
    ultimately show ?thesis
      using metadata_field_value [OF assms(2), of k] by simp
  qed
  with bk show ?thesis
    by blast
qed

theorem build_kwargs_defensive_metadata_witness:
  "resource sample_cause = Some sample_resource \<and> metadata_ok (body sample_resource)
   \<and> (\<exists>m. build_kwargs (Some sample_cause) Map.empty = Inr m
        \<and> m ''uid'' = Some (KVal VNone)
        \<and> m ''name'' = Some (KVal (VStr ''obj''))
        \<and> m ''namespace'' = Some (KVal VNone))"
proof -
  have h1: "resource sample_cause = Some sample_resource"
    by (simp add: sample_cause_def)
  have h2: "metadata_ok (body sample_resource)"
    by (simp add: sample_resource_def sample_body_def metadata_ok_def)
  from build_kwargs_defensive_metadata [OF h1 h2, of Map.empty]
  obtain m where m: "build_kwargs (Some sample_cause) Map.empty = Inr m"
    and f: "\<forall>k \<in> {''uid'', ''name'', ''namespace''}. m k = Some (KVal
        (case map_of (body sample_resource) ''metadata'' of
           Some (VDict md) \<Rightarrow> (case map_of md k of Some v \<Rightarrow> v | None \<Rightarrow> VNone)
         | _ \<Rightarrow> VNone))"
    by blast
  from f have "m ''uid'' = Some (KVal VNone)" "m ''name'' = Some (KVal (VStr ''obj''))"
    "m ''namespace'' = Some (KVal VNone)"
    by (simp_all add: sample_resource_def sample_body_def)
  with m h1 h2 show ?thesis
    by blast
qed

section \<open>Properties of \<open>is_async_fn\<close>\<close>

lemma is_async_fn_sound: "is_async_fn d h r = Inr b \<Longrightarrow> classified h r b"
proof (induction d h r rule: is_async_fn.induct)
  case (1 h fn)
  then show ?case by simp
next
  case (2 d h)
  then show ?case by (simp add: classified.absent)
next
  case (3 d h a)
  show ?case
  proof (cases "h a")
    case (Partial func args kws)
    with 3 show ?thesis
      by (auto intro: classified.partial)
  next
    case (Callable wrapped coro)
    show ?thesis
    proof (cases wrapped)
      case None
      with 3 Callable show ?thesis
        by (auto intro: classified.core)
    next
      case (Some w)
      with 3 Callable show ?thesis
        by (auto intro: classified.wrapper)
    qed
  qed
qed

lemma is_async_fn_complete:
  "classified h r b \<Longrightarrow> \<exists>n. \<forall>d \<ge> n. is_async_fn d h r = Inr b"
proof (induction rule: classified.induct)
  case (absent h)
  have "\<forall>d \<ge> Suc 0. is_async_fn d h None = Inr False"
    by (auto simp: Suc_le_eq gr0_conv_Suc)
  then show ?case by blast
next
  case (partial h a func args kws b)
  then obtain n where n: "\<forall>d \<ge> n. is_async_fn d h (Some func) = Inr b"
    by blast
  have "\<forall>d \<ge> Suc n. is_async_fn d h (Some a) = Inr b"
  proof (intro allI impI)
    fix d assume "Suc n \<le> d"
    then obtain d' where "d = Suc d'" "n \<le> d'"
      by (cases d) auto
    with n partial.hyps show "is_async_fn d h (Some a) = Inr b"
      by simp
  qed
  then show ?case by blast
next
  case (wrapper h a w coro b)
  then obtain n where n: "\<forall>d \<ge> n. is_async_fn d h w = Inr b"
    by blast
  have "\<forall>d \<ge> Suc n. is_async_fn d h (Some a) = Inr b"
  proof (intro allI impI)
    fix d assume "Suc n \<le> d"
    then obtain d' where "d = Suc d'" "n \<le> d'"
      by (cases d) auto
    with n wrapper.hyps show "is_async_fn d h (Some a) = Inr b"
      by simp
  qed
  then show ?case by blast
next
  case (core h a coro)
  have "\<forall>d \<ge> Suc 0. is_async_fn d h (Some a) = Inr coro"
    using core by (auto simp: Suc_le_eq gr0_conv_Suc)
  then show ?case by blast
qed

lemma is_async_fn_outcomes: "is_async_fn d h r = Inl RecursionError \<or> (\<exists>b. is_async_fn d h r = Inr b)"
  by (induction d h r rule: is_async_fn.induct) (auto split: pyobj.splits option.splits)

lemma sample_heap_layers:
  "sample_heap 0 = Partial 1 [VInt 1] []"
  "sample_heap 1 = Callable (Some (Some 2)) False"
  "sample_heap 2 = Partial 3 [] [(''x'', VInt 2)]"
  "sample_heap 3 = Callable None True"
  by (simp_all add: sample_heap_def)

lemma classified_sample_heap: "classified sample_heap (Some 0) True"
proof -
  have c3: "classified sample_heap (Some 3) True"
    using sample_heap_layers(4) by (rule classified.core)
  have c2: "classified sample_heap (Some 2) True"
    using sample_heap_layers(3) c3 by (rule classified.partial)
  have c1: "classified sample_heap (Some 1) True"
    using sample_heap_layers(2) c2 by (rule classified.wrapper)
  show ?thesis
    using sample_heap_layers(1) c1 by (rule classified.partial)
qed

lemma classified_cyclic_heap: "classified h r b \<Longrightarrow> h = cyclic_heap \<Longrightarrow> r = None"
  by (induction rule: classified.induct) (auto simp: cyclic_heap_def)

text \<open>
  Claim C5. \<open>is_async_fn\<close> of \<open>None\<close> is false. For a partial application it is the
  classification of the inner callable, whatever arguments and keywords are bound; for an
  object with a \<open>__wrapped__\<close> attribute it is the classification of the wrapped target;
  for any other object it is true iff the object is a coroutine function. Through any
  number of such layers (three or more included) it returns the classification that the
  chain ends in, as soon as the interpreter has a stack frame for each layer.
\<close>

theorem is_async_fn_classification:
  "is_async_fn (Suc d) h None = Inr False
   \<and> (\<forall>func args kws. h a = Partial func args kws
        \<longrightarrow> is_async_fn (Suc d) h (Some a) = is_async_fn d h (Some func))
   \<and> (\<forall>w coro. h a = Callable (Some w) coro
        \<longrightarrow> is_async_fn (Suc d) h (Some a) = is_async_fn d h w)
   \<and> (\<forall>coro. h a = Callable None coro \<longrightarrow> is_async_fn (Suc d) h (Some a) = Inr coro)
   \<and> (\<forall>r b. classified h r b \<longrightarrow> (\<exists>n. \<forall>d' \<ge> n. is_async_fn d' h r = Inr b))"
  by (simp add: is_async_fn_complete)

theorem is_async_fn_classification_witness:
  "sample_heap 0 = Partial 1 [VInt 1] []
   \<and> sample_heap 1 = Callable (Some (Some 2)) False
   \<and> sample_heap 2 = Partial 3 [] [(''x'', VInt 2)]
   \<and> sample_heap 3 = Callable None True
   \<and> is_async_fn (Suc (Suc (Suc (Suc 0)))) sample_heap (Some 0) = Inr True
   \<and> classified sample_heap (Some 0) True
   \<and> (\<exists>n. \<forall>d \<ge> n. is_async_fn d sample_heap (Some 0) = Inr True)"
proof -
  note l = sample_heap_layers
  have "is_async_fn (Suc (Suc (Suc (Suc 0)))) sample_heap (Some 0)
        = is_async_fn (Suc (Suc (Suc 0))) sample_heap (Some 1)"
    using is_async_fn_classification [of "Suc (Suc (Suc 0))" sample_heap 0] l(1) by blast
  also have "\<dots> = is_async_fn (Suc (Suc 0)) sample_heap (Some 2)"
    using is_async_fn_classification [of "Suc (Suc 0)" sample_heap 1] l(2) by blast
  also have "\<dots> = is_async_fn (Suc 0) sample_heap (Some 3)"
    using is_async_fn_classification [of "Suc 0" sample_heap 2] l(3) by blast
  also have "\<dots> = Inr True"
    using is_async_fn_classification [of 0 sample_heap 3] l(4) by blast
  finally have run: "is_async_fn (Suc (Suc (Suc (Suc 0)))) sample_heap (Some 0) = Inr True" .
  have "\<exists>n. \<forall>d \<ge> n. is_async_fn d sample_heap (Some 0) = Inr True"
    using is_async_fn_classification [of 0 sample_heap 0] classified_sample_heap by blast
  with run l classified_sample_heap show ?thesis
    by blast
qed

text \<open>
  Claim C6. \<open>is_async_fn\<close> ends on every input, with a classification or with
  \<open>RecursionError\<close> and nothing else. On a chain that ends (in a plain callable, or in a
  \<open>__wrapped__\<close> that holds \<open>None\<close>) it returns a classification whenever the stack has
  room for the chain. On a chain that never ends, as a cycle of wrappers, it returns no
  classification at any stack depth: the call raises \<open>RecursionError\<close>, and there is no
  silent \<open>False\<close>.
\<close>

theorem is_async_fn_terminates:
  "(is_async_fn d h r = Inl RecursionError \<or> (\<exists>b. is_async_fn d h r = Inr b))
   \<and> ((\<exists>b. classified h r b) \<longrightarrow> (\<exists>n b. \<forall>d' \<ge> n. is_async_fn d' h r = Inr b))
   \<and> ((\<nexists>b. classified h r b) \<longrightarrow> (\<forall>d'. is_async_fn d' h r = Inl RecursionError))"
proof (intro conjI impI allI)
  show "is_async_fn d h r = Inl RecursionError \<or> (\<exists>b. is_async_fn d h r = Inr b)"
    by (rule is_async_fn_outcomes)
next
  assume "\<exists>b. classified h r b"
  then obtain b where "classified h r b"
    by blast
  from is_async_fn_complete [OF this]
  show "\<exists>n b. \<forall>d' \<ge> n. is_async_fn d' h r = Inr b"
    by blast
next
  fix d'
  assume none: "\<nexists>b. classified h r b"
  from is_async_fn_outcomes [of d' h r]
  show "is_async_fn d' h r = Inl RecursionError"
  proof
    assume "\<exists>b. is_async_fn d' h r = Inr b"
    then obtain b where "is_async_fn d' h r = Inr b"
      by blast
    then have "classified h r b"
      by (rule is_async_fn_sound)
    with none show ?thesis
      by blast
  qed
qed

theorem is_async_fn_terminates_witness:
  "(\<exists>b. classified sample_heap (Some 0) b)
   \<and> (\<exists>n b. \<forall>d \<ge> n. is_async_fn d sample_heap (Some 0) = Inr b)
   \<and> (\<nexists>b. classified cyclic_heap (Some 0) b)
   \<and> (\<forall>d. is_async_fn d cyclic_heap (Some 0) = Inl RecursionError)"
proof -
  have a: "\<exists>b. classified sample_heap (Some 0) b"
    using classified_sample_heap by blast
  have b: "\<nexists>b. classified cyclic_heap (Some 0) b"
    using classified_cyclic_heap by blast
  from a is_async_fn_terminates [of 0 sample_heap "Some 0"]
  have c: "\<exists>n b. \<forall>d \<ge> n. is_async_fn d sample_heap (Some 0) = Inr b"
    by blast
  from b is_async_fn_terminates [of 0 cyclic_heap "Some 0"]
  have "\<forall>d. is_async_fn d cyclic_heap (Some 0) = Inl RecursionError"
    by blast
  with a b c show ?thesis
    by blast
qed

section \<open>Properties of the \<open>context\<close> manager\<close>

lemma set_all_acc:
  "set_all vals tokens c = (tokens @ fst (set_all vals [] c), snd (set_all vals [] c))"
proof (induction vals arbitrary: tokens c)
  case Nil
  show ?case by simp
next
  case (Cons p vals)
  obtain var v where p: "p = (var, v)" by (cases p)
  obtain t c' where s: "var_set var v c = (t, c')" by (cases "var_set var v c")
  show ?case
    using Cons.IH [of "tokens @ [(var, t)]" c'] Cons.IH [of "[(var, t)]" c']
    by (simp add: p s)
qed

lemma set_all_Cons:
  "set_all ((var, v) # vals) [] c =
     ((var, fst (var_set var v c)) # fst (set_all vals [] (snd (var_set var v c))),
      snd (set_all vals [] (snd (var_set var v c))))"
  using set_all_acc [of vals "[(var, fst (var_set var v c))]" "snd (var_set var v c)"]
  by (simp add: case_prod_unfold)


lemma set_all_ctx_id: "ctx_id (snd (set_all vals tokens c)) = ctx_id c"
  by (induction vals arbitrary: tokens c) (auto simp: var_set_def)



lemma set_all_last:
  "vals \<noteq> [] \<Longrightarrow> \<exists>t ts. fst (set_all vals [] c) = ts @ [(fst (last vals), t)]
      \<and> tok_var t = fst (last vals) \<and> tok_ctx t = ctx_id c"
proof (induction vals arbitrary: c)
  case Nil
  then show ?case by simp
next
  case (Cons p vals)
  obtain var v where p: "p = (var, v)" by (cases p)
  show ?case
  proof (cases "vals = []")
    case True
    then show ?thesis
      by (simp add: p var_set_def)
  next
    case False
    from Cons.IH [OF False, of "snd (var_set var v c)"]
    obtain t ts where "fst (set_all vals [] (snd (var_set var v c))) = ts @ [(fst (last vals), t)]"
      "tok_var t = fst (last vals)" "tok_ctx t = ctx_id (snd (var_set var v c))"
      by blast
    then have "fst (set_all (p # vals) [] c) = ((var, fst (var_set var v c)) # ts) @ [(fst (last (p # vals)), t)]
      \<and> tok_var t = fst (last (p # vals)) \<and> tok_ctx t = ctx_id c"
      using False by (simp add: p set_all_Cons var_set_def del: set_all.simps)
    then show ?thesis by blast
  qed
qed




text \<open>
  Claim C8, as stated: if restoring one variable raises, the manager still calls \<open>reset\<close>
  for every remaining variable. It does not: with two variables bound and the exit in
  another \<open>Context\<close>, the reset of the second variable raises \<open>ValueError\<close>, the loop
  ends there, and \<open>reset\<close> is never called for the first one.
\<close>

theorem context_scope_exception_safe_counterexample:
  "fst (context_scope [(0, VInt 1), (1, VInt 2)] moving_block sample_ctx) = Some ValueError
   \<and> snd (snd (context_scope [(0, VInt 1), (1, VInt 2)] moving_block sample_ctx)) = [1]
   \<and> snd (snd (context_scope [(0, VInt 1), (1, VInt 2)] moving_block sample_ctx))
        \<noteq> rev (map fst [(0, VInt 1), (1::nat, VInt 2)])"
  by (simp add: context_scope_def var_set_def var_reset_def moving_block_def sample_ctx_def)

text \<open>
  Claim C8, amended. The restoration is not exception-safe. When the exit runs in another
  \<open>Context\<close> than the entry and at least one variable was bound, the first \<open>reset\<close>, that
  of the variable bound last, raises \<open>ValueError\<close>. This exception leaves the manager at
  once, in place of whatever the block raised; \<open>reset\<close> is called for no other variable,
  and the context stays as the block left it.
\<close>

theorem context_scope_reset_failure:
  assumes "block (snd (set_all vals [] c)) = (raised, c2)" and "ctx_id c2 \<noteq> ctx_id c"
    and "vals \<noteq> []"
  shows "context_scope vals block c = (Some ValueError, c2, [fst (last vals)])"
proof -
  from set_all_last [OF assms(3), of c]
  obtain t ts where ts: "fst (set_all vals [] c) = ts @ [(fst (last vals), t)]"
    and t: "tok_var t = fst (last vals)" "tok_ctx t = ctx_id c"
    by blast
  have "var_reset (fst (last vals)) t c2 = Inl ValueError"
    using t assms(2) by (simp add: var_reset_def)
  then have "reset_all (rev (fst (set_all vals [] c))) c2 [] = (Some ValueError, c2, [fst (last vals)])"
    by (simp add: ts)
  then show ?thesis
    using assms(1) by (simp add: context_scope_def case_prod_unfold)
qed


theorem context_scope_reset_failure_witness:
  "moving_block (snd (set_all sample_values [] sample_ctx))
     = (None, snd (moving_block (snd (set_all sample_values [] sample_ctx))))
   \<and> ctx_id (snd (moving_block (snd (set_all sample_values [] sample_ctx)))) \<noteq> ctx_id sample_ctx
   \<and> sample_values \<noteq> []
   \<and> context_scope sample_values moving_block sample_ctx
       = (Some ValueError, snd (moving_block (snd (set_all sample_values [] sample_ctx))), [0])"
proof -
  let ?c1 = "snd (set_all sample_values [] sample_ctx)"
  have h1: "moving_block ?c1 = (None, snd (moving_block ?c1))"
    by (simp add: moving_block_def)
  have h2: "ctx_id (snd (moving_block ?c1)) \<noteq> ctx_id sample_ctx"
    by (simp add: moving_block_def set_all_ctx_id)
  have h3: "sample_values \<noteq> []"
    by (simp add: sample_values_def)
  from context_scope_reset_failure [where block = moving_block and vals = sample_values and c = sample_ctx, OF h1 h2 h3]
  have "context_scope sample_values moving_block sample_ctx
       = (Some ValueError, snd (moving_block ?c1), [0])"
    by (simp add: sample_values_def)
  with h1 h2 h3 show ?thesis
    by blast
qed

section \<open>Properties of \<open>invoke\<close>\<close>

lemma wait_loop_pending:
  "\<forall>ev \<in> set pre. \<not> completes ev \<Longrightarrow>
   wait_loop out False cancellation (pre @ rest) = wait_loop out False (recorded cancellation pre) rest"
proof (induction pre arbitrary: cancellation)
  case Nil
  show ?case by simp
next
  case (Cons ev pre)
  then show ?case
    by (cases ev) auto
qed



lemma invoke_sync:
  assumes "build_kwargs cause kws = Inr kw" and "is_async_fn d h (Some a) = Inr False"
  shows "invoke d h (Some a) behaviour args cause kws sched =
     (case wait_loop (behaviour args kw) False None sched of
        None \<Rightarrow> None
      | Some (Inl e) \<Rightarrow> Some ([(args, kw)], Inl e)
      | Some (Inr cancellation) \<Rightarrow> Some ([(args, kw)], after_wait (behaviour args kw) cancellation))"
  using assms by (simp add: invoke_def)

lemma invoke_async:
  assumes "build_kwargs cause kws = Inr kw" and "is_async_fn d h (Some a) = Inr True"
  shows "invoke d h (Some a) behaviour args cause kws sched = Some ([(args, kw)], behaviour args kw)"
  using assms by (simp add: invoke_def)


lemma wait_loop_cancelled_done:
  assumes "\<forall>ev \<in> set pre. \<not> completes ev"
  shows "wait_loop out False cancellation (pre @ Cancelled c True # post)
     = Some (Inr (Some (CancelledError c)))"
  by (simp add: wait_loop_pending [OF assms])

lemma wait_loop_completed:
  assumes "\<forall>ev \<in> set pre. \<not> completes ev"
  shows "wait_loop out False cancellation (pre @ Completed # post) =
     (case out of
        Inr v \<Rightarrow> Some (Inr (recorded cancellation pre))
      | Inl e \<Rightarrow> if is_cancelled e then Some (Inr (Some e)) else Some (Inl e))"
  by (simp add: wait_loop_pending [OF assms] split: sum.splits)

lemma plain_heap_sync: "is_async_fn (Suc 0) plain_heap (Some 7) = Inr False"
  by (simp add: plain_heap_def)

lemma plain_heap_async: "is_async_fn (Suc 0) plain_heap (Some 8) = Inr True"
  by (simp add: plain_heap_def)



text \<open>
  Claim C2, as stated: every error \<open>E\<close> raised by the handler reaches the caller of \<open>invoke\<close>
  as it is. It does not when the handler is a blocking one and the task is cancelled while the
  thread ends: the await raises the cancellation, the loop finds the future complete, and the
  caller gets the cancellation; the handler's error is dropped.
\<close>

theorem invoke_handler_error_counterexample:
  "raising [VInt 1, VInt 2] Map.empty = Inl (Raised 1)
   \<and> invoke (Suc 0) plain_heap (Some 7) raising [VInt 1, VInt 2] None Map.empty [Cancelled 5 True]
       = Some ([([VInt 1, VInt 2], Map.empty)], Inl (CancelledError 5))"
  by (simp add: invoke_def build_kwargs_None plain_heap_def raising_def after_wait_def)

text \<open>
  Claim C2, amended. Let the handler raise \<open>E\<close> on the merged keyword arguments. An
  asynchronous handler: the caller gets \<open>E\<close> itself. A blocking handler: when the await that
  finds the future complete is not itself cancelled, the caller gets \<open>E\<close> itself, also after
  earlier cancellation requests; when the completion is found together with a cancellation
  request, the caller gets that cancellation instead. Whenever \<open>invoke\<close> ends, the handler
  has been called exactly once, with the positional arguments and the mapping that
  \<open>build_kwargs\<close> returned; it is not called again.
\<close>

theorem invoke_handler_error:
  assumes "build_kwargs cause kws = Inr kw"
    and "is_async_fn d h (Some a) = Inr b"
    and "behaviour args kw = Inl E"
    and "\<forall>ev \<in> set pre. \<not> completes ev"
  shows "(b \<longrightarrow> invoke d h (Some a) behaviour args cause kws sched = Some ([(args, kw)], Inl E))
     \<and> (\<not> b \<longrightarrow> invoke d h (Some a) behaviour args cause kws (pre @ Completed # post)
           = Some ([(args, kw)], Inl E))
     \<and> (\<not> b \<longrightarrow> invoke d h (Some a) behaviour args cause kws (pre @ Cancelled c True # post)
           = Some ([(args, kw)], Inl (CancelledError c)))
     \<and> (\<forall>r. invoke d h (Some a) behaviour args cause kws sched = Some r \<longrightarrow> fst r = [(args, kw)])"
proof (intro conjI impI allI)
  assume b
  with assms(2) have "is_async_fn d h (Some a) = Inr True"
    by simp
  from invoke_async [OF assms(1) this]
  show "invoke d h (Some a) behaviour args cause kws sched = Some ([(args, kw)], Inl E)"
    by (simp add: assms(3))
next
  assume "\<not> b"
  with assms(2) have s: "is_async_fn d h (Some a) = Inr False"
    by simp
  show "invoke d h (Some a) behaviour args cause kws (pre @ Completed # post)
      = Some ([(args, kw)], Inl E)"
    by (simp add: invoke_sync [OF assms(1) s] wait_loop_completed [OF assms(4)] assms(3) after_wait_def)
  show "invoke d h (Some a) behaviour args cause kws (pre @ Cancelled c True # post)
      = Some ([(args, kw)], Inl (CancelledError c))"
    by (simp add: invoke_sync [OF assms(1) s] wait_loop_cancelled_done [OF assms(4)] after_wait_def)
next
  fix r
  assume r: "invoke d h (Some a) behaviour args cause kws sched = Some r"
  show "fst r = [(args, kw)]"
  proof (cases b)
    case True
    with assms(2) have "is_async_fn d h (Some a) = Inr True"
      by simp
    from invoke_async [OF assms(1) this] r show ?thesis
      by auto
  next
    case False
    with assms(2) have "is_async_fn d h (Some a) = Inr False"
      by simp
    from invoke_sync [OF assms(1) this] r show ?thesis
      by (auto split: option.splits sum.splits)
  qed
qed

theorem invoke_handler_error_witness:
  "build_kwargs None Map.empty = Inr Map.empty
   \<and> is_async_fn (Suc 0) plain_heap (Some 7) = Inr False
   \<and> is_async_fn (Suc 0) plain_heap (Some 8) = Inr True
   \<and> raising [VInt 1, VInt 2] Map.empty = Inl (Raised 1)
   \<and> invoke (Suc 0) plain_heap (Some 8) raising [VInt 1, VInt 2] None Map.empty []
       = Some ([([VInt 1, VInt 2], Map.empty)], Inl (Raised 1))
   \<and> invoke (Suc 0) plain_heap (Some 7) raising [VInt 1, VInt 2] None Map.empty
        [Cancelled 5 False, Completed]
       = Some ([([VInt 1, VInt 2], Map.empty)], Inl (Raised 1))
   \<and> invoke (Suc 0) plain_heap (Some 7) raising [VInt 1, VInt 2] None Map.empty
        [Cancelled 5 False, Cancelled 6 True]
       = Some ([([VInt 1, VInt 2], Map.empty)], Inl (CancelledError 6))"
proof -
  have h1: "build_kwargs None Map.empty = Inr Map.empty"
    by (rule build_kwargs_None)
  have h3: "raising [VInt 1, VInt 2] Map.empty = Inl (Raised 1)"
    by (simp add: raising_def)
  have h4: "\<forall>ev \<in> set [Cancelled 5 False]. \<not> completes ev"
    by simp
  note s = invoke_handler_error [where behaviour = raising and args = "[VInt 1, VInt 2]"
      and c = 6 and post = "[]", OF h1 plain_heap_sync h3 h4]
  note a = invoke_handler_error [where behaviour = raising and args = "[VInt 1, VInt 2]"
      and sched = "[]", OF h1 plain_heap_async h3 h4]
  from a have x: "invoke (Suc 0) plain_heap (Some 8) raising [VInt 1, VInt 2] None Map.empty []
       = Some ([([VInt 1, VInt 2], Map.empty)], Inl (Raised 1))"
    by blast
  from s have y: "invoke (Suc 0) plain_heap (Some 7) raising [VInt 1, VInt 2] None Map.empty
        ([Cancelled 5 False] @ [Completed]) = Some ([([VInt 1, VInt 2], Map.empty)], Inl (Raised 1))"
    and z: "invoke (Suc 0) plain_heap (Some 7) raising [VInt 1, VInt 2] None Map.empty
        ([Cancelled 5 False] @ [Cancelled 6 True])
       = Some ([([VInt 1, VInt 2], Map.empty)], Inl (CancelledError 6))"
    by blast+
  from x y z h1 h3 plain_heap_sync plain_heap_async show ?thesis
    by simp
qed

section \<open>Properties of the hierarchy helpers\<close>

lemma guess_owner_none: "no_ambient_owner cv \<Longrightarrow> guess_owner cv None = Inl LookupError"
  by (auto simp: no_ambient_owner_def guess_owner_def split: option.splits)

lemma guess_owner_explicit: "guess_owner cv (Some b) = Inr b"
  by (simp add: guess_owner_def)

lemma append_owner_reference_explicit:
  "append_owner_reference bor cv objs (Some b) =
     (case bor b of
        Inl e \<Rightarrow> (Some e, objs)
      | Inr owner_ref \<Rightarrow> for_each (append_owner_reference_obj owner_ref) objs)"
  by (simp add: append_owner_reference_def guess_owner_explicit)

lemma remove_owner_reference_explicit:
  "remove_owner_reference bor cv objs (Some b) =
     (case bor b of
        Inl e \<Rightarrow> (Some e, objs)
      | Inr owner_ref \<Rightarrow> for_each (remove_owner_reference_obj owner_ref) objs)"
  by (simp add: remove_owner_reference_def guess_owner_explicit)

lemma harmonize_naming_explicit:
  "name \<noteq> VNone \<Longrightarrow> harmonize_naming str_of cv objs name forced strict =
     for_each (harmonize_naming_obj str_of name forced strict) objs"
  by (simp add: harmonize_naming_def)

lemma adjust_namespace_explicit:
  "namespace \<noteq> VNone \<Longrightarrow> adjust_namespace cv objs namespace forced =
     for_each (adjust_namespace_obj namespace forced) objs"
  by (simp add: adjust_namespace_def)

lemma adopt_explicit:
  assumes "metadata_field b ''name'' \<noteq> Inr VNone" and "metadata_field b ''namespace'' \<noteq> Inr VNone"
  shows "adopt bor str_of cv objs (Some b) = adopt bor str_of cv' objs (Some b)"
proof -
  have n: "harmonize_naming str_of cv objs1 name False False
      = harmonize_naming str_of cv' objs1 name False False"
    if "metadata_field b ''name'' = Inr name" for name objs1
    using that assms(1) by (simp add: harmonize_naming_explicit)
  have ns: "adjust_namespace cv objs2 namespace False = adjust_namespace cv' objs2 namespace False"
    if "metadata_field b ''namespace'' = Inr namespace" for namespace objs2
    using that assms(2) by (simp add: adjust_namespace_explicit)
  show ?thesis
    unfolding adopt_def guess_owner_explicit append_owner_reference_explicit
    by (auto simp: n ns split: sum.splits prod.splits option.splits)
qed

text \<open>
  Claim C10, as stated: with an owner supplied explicitly the ambient variable is not
  consulted. For \<open>adopt\<close> it is, when the owner has no namespace (or no name): \<open>adopt\<close>
  passes \<open>None\<close> on to \<open>adjust_namespace\<close>, which then asks the ambient variable. With the
  variable unset this raises \<open>LookupError\<close> after the owner reference and the name have been
  written to the target; with the variable set it succeeds.
\<close>

theorem adopt_explicit_owner_counterexample:
  "fst (adopt sample_build_owner_reference sample_str_of None [sample_child] (Some sample_owner))
     = Some LookupError
   \<and> snd (adopt sample_build_owner_reference sample_str_of None [sample_child] (Some sample_owner))
     \<noteq> [sample_child]
   \<and> fst (adopt sample_build_owner_reference sample_str_of (Some (Some ambient_cause))
        [sample_child] (Some sample_owner)) = None"
  by (simp add: adopt_def guess_owner_def append_owner_reference_def sample_build_owner_reference_def
      sample_owner_def sample_child_def metadata_field_def val_get_def dict_get_default_def
      append_owner_reference_obj_def setdefault_entry_def setdefault_metadata_def matching_def
      iterate_def put_entry_def harmonize_naming_def harmonize_naming_obj_def has_name_def
      hashable_def set_entry_def del_entry_def sample_str_of_def adjust_namespace_def
      adjust_namespace_obj_def ambient_cause_def val_get_default_def label_def label_obj_def)

text \<open>
  Claim C10, amended. When the ambient variable gives no owner (it is unset, holds
  \<open>None\<close>, or holds a cause that is not a \<open>ResourceCause\<close>), then
  \<open>append_owner_reference\<close>, \<open>remove_owner_reference\<close> and \<open>adopt\<close> called without an
  owner, \<open>harmonize_naming\<close> called without a name and \<open>adjust_namespace\<close> called without a
  namespace raise \<open>LookupError\<close> and leave every target as it was. An owner supplied
  explicitly is used as it is. With it, \<open>append_owner_reference\<close> and
  \<open>remove_owner_reference\<close> do the same whatever the ambient variable holds; so do
  \<open>harmonize_naming\<close> with a name, \<open>adjust_namespace\<close> with a namespace, and \<open>adopt\<close>
  with an owner whose metadata has a name and a namespace.
\<close>

theorem owner_defaulting:
  "(no_ambient_owner cv \<longrightarrow>
       append_owner_reference bor cv objs None = (Some LookupError, objs)
     \<and> remove_owner_reference bor cv objs None = (Some LookupError, objs)
     \<and> adopt bor str_of cv objs None = (Some LookupError, objs)
     \<and> harmonize_naming str_of cv objs VNone forced strict = (Some LookupError, objs)
     \<and> adjust_namespace cv objs VNone forced = (Some LookupError, objs))
   \<and> guess_owner cv (Some b) = Inr b
   \<and> append_owner_reference bor cv objs (Some b) = append_owner_reference bor cv' objs (Some b)
   \<and> remove_owner_reference bor cv objs (Some b) = remove_owner_reference bor cv' objs (Some b)
   \<and> (name \<noteq> VNone \<longrightarrow> harmonize_naming str_of cv objs name forced strict
         = harmonize_naming str_of cv' objs name forced strict)
   \<and> (namespace \<noteq> VNone \<longrightarrow> adjust_namespace cv objs namespace forced
         = adjust_namespace cv' objs namespace forced)
   \<and> (metadata_field b ''name'' \<noteq> Inr VNone \<longrightarrow> metadata_field b ''namespace'' \<noteq> Inr VNone
        \<longrightarrow> adopt bor str_of cv objs (Some b) = adopt bor str_of cv' objs (Some b))"
proof (intro conjI impI)
  assume a: "no_ambient_owner cv"
  show "append_owner_reference bor cv objs None = (Some LookupError, objs)"
    by (simp add: append_owner_reference_def guess_owner_none [OF a])
  show "remove_owner_reference bor cv objs None = (Some LookupError, objs)"
    by (simp add: remove_owner_reference_def guess_owner_none [OF a])
  show "adopt bor str_of cv objs None = (Some LookupError, objs)"
    by (simp add: adopt_def guess_owner_none [OF a])
  show "harmonize_naming str_of cv objs VNone forced strict = (Some LookupError, objs)"
    by (simp add: harmonize_naming_def guess_owner_none [OF a])
  show "adjust_namespace cv objs VNone forced = (Some LookupError, objs)"
    by (simp add: adjust_namespace_def guess_owner_none [OF a])
next
  show "guess_owner cv (Some b) = Inr b"
    by (rule guess_owner_explicit)
  show "append_owner_reference bor cv objs (Some b) = append_owner_reference bor cv' objs (Some b)"
    by (simp add: append_owner_reference_explicit)
  show "remove_owner_reference bor cv objs (Some b) = remove_owner_reference bor cv' objs (Some b)"
    by (simp add: remove_owner_reference_explicit)
next
  assume "name \<noteq> VNone"
  then show "harmonize_naming str_of cv objs name forced strict
      = harmonize_naming str_of cv' objs name forced strict"
    by (simp add: harmonize_naming_explicit)
next
  assume "namespace \<noteq> VNone"
  then show "adjust_namespace cv objs namespace forced = adjust_namespace cv' objs namespace forced"
    by (simp add: adjust_namespace_explicit)
next
  assume "metadata_field b ''name'' \<noteq> Inr VNone" and "metadata_field b ''namespace'' \<noteq> Inr VNone"
  then show "adopt bor str_of cv objs (Some b) = adopt bor str_of cv' objs (Some b)"
    by (rule adopt_explicit)
qed

theorem owner_defaulting_witness:
  "no_ambient_owner (Some (Some activity_cause))
   \<and> adopt sample_build_owner_reference sample_str_of (Some (Some activity_cause)) [sample_child] None
        = (Some LookupError, [sample_child])
   \<and> append_owner_reference sample_build_owner_reference (Some (Some activity_cause)) [sample_child] None
        = (Some LookupError, [sample_child])
   \<and> adjust_namespace (Some (Some activity_cause)) [sample_child] VNone True
        = (Some LookupError, [sample_child])
   \<and> harmonize_naming sample_str_of None [sample_child] (VStr ''x'') False True
        = harmonize_naming sample_str_of (Some (Some ambient_cause)) [sample_child] (VStr ''x'') False True
   \<and> adjust_namespace None [sample_child] (VStr ''ns2'') False
        = adjust_namespace (Some (Some ambient_cause)) [sample_child] (VStr ''ns2'') False
   \<and> adopt sample_build_owner_reference sample_str_of None [sample_child] (Some namespaced_owner)
        = adopt sample_build_owner_reference sample_str_of (Some (Some ambient_cause)) [sample_child]
            (Some namespaced_owner)"
proof -
  have h1: "no_ambient_owner (Some (Some activity_cause))"
    by (simp add: no_ambient_owner_def activity_cause_def)
  have h2: "VStr ''x'' \<noteq> VNone" "VStr ''ns2'' \<noteq> VNone"
    by simp_all
  have h3: "metadata_field namespaced_owner ''name'' \<noteq> Inr VNone"
    "metadata_field namespaced_owner ''namespace'' \<noteq> Inr VNone"
    by (simp_all add: namespaced_owner_def metadata_field_def val_get_def dict_get_default_def)
  note t1 = owner_defaulting [where cv = "Some (Some activity_cause)"
      and bor = sample_build_owner_reference and str_of = sample_str_of and objs = "[sample_child]"
      and forced = True]
  note t2 = owner_defaulting [where cv = None and cv' = "Some (Some ambient_cause)"
      and bor = sample_build_owner_reference and str_of = sample_str_of and objs = "[sample_child]"
      and name = "VStr ''x''" and namespace = "VStr ''ns2''" and forced = False and strict = True
      and b = namespaced_owner]
  from t1 h1 have a: "adopt sample_build_owner_reference sample_str_of (Some (Some activity_cause))
        [sample_child] None = (Some LookupError, [sample_child])"
    "append_owner_reference sample_build_owner_reference (Some (Some activity_cause)) [sample_child] None
        = (Some LookupError, [sample_child])"
    "adjust_namespace (Some (Some activity_cause)) [sample_child] VNone True
        = (Some LookupError, [sample_child])"
    by blast+
  from t2 h2 h3 have b: "harmonize_naming sample_str_of None [sample_child] (VStr ''x'') False True
        = harmonize_naming sample_str_of (Some (Some ambient_cause)) [sample_child] (VStr ''x'') False True"
    "adjust_namespace None [sample_child] (VStr ''ns2'') False
        = adjust_namespace (Some (Some ambient_cause)) [sample_child] (VStr ''ns2'') False"
    "adopt sample_build_owner_reference sample_str_of None [sample_child] (Some namespaced_owner)
        = adopt sample_build_owner_reference sample_str_of (Some (Some ambient_cause)) [sample_child]
            (Some namespaced_owner)"
    by blast+
  from h1 a b show ?thesis
    by blast
qed

end
